theory Spec2Isabelle
  imports Complex_Main
begin

section \<open>The banking system of \<^verbatim>\<open>code2.cpp\<close>\<close>

text \<open>
  The program keeps one \<^verbatim>\<open>BankSystem\<close> object with two fixed-size arrays
  (\<^verbatim>\<open>accounts[MAX_ACCOUNTS]\<close>, \<^verbatim>\<open>processes[MAX_PROCESSES]\<close>), the number of used
  slots of each (\<^verbatim>\<open>accountCount\<close>, \<^verbatim>\<open>processCount\<close>) and two id counters.

  Modelling decisions:
  \<^item> Only the slots below the count are ever read, and a slot is written exactly when the
    count passes it. Each array is therefore modelled by the list of its used slots, and
    the count is the length of that list.
  \<^item> \<^verbatim>\<open>int\<close> values are modelled by \<^typ>\<open>int\<close>. The only arithmetic on them is the
    increment of the two id counters; lemma \<open>reachable_counters\<close> below shows that the
    counters never exceed 1001 and 101, so 32-bit wrap-around cannot arise.
  \<^item> \<^verbatim>\<open>double\<close> values are modelled by the type \<open>double\<close> of the next section:
    IEEE 754 binary64 with NaN, both infinities and rounding to nearest, ties to even.
  \<^item> \<^verbatim>\<open>std::string\<close> values (customer id, transaction type, status) are \<^typ>\<open>string\<close>.
  \<^item> Every method body runs under \<^verbatim>\<open>bankMutex\<close>, and the thread started by
    \<^verbatim>\<open>executeProcess\<close> is joined before the method returns; each method is modelled as
    one sequential state transformer. The mutexes themselves carry no data.
  \<^item> A method that prints an error message and returns \<^verbatim>\<open>-1\<close> (or just returns) is
    modelled as returning a value of type \<open>error\<close> that names the message.
  \<^item> A pointer into \<^verbatim>\<open>accounts\<close> is modelled by the index of the slot.
\<close>

section \<open>Double-precision numbers\<close>

text \<open>
  A \<^verbatim>\<open>double\<close> is NaN, an infinity, or a finite number, which is carried as the real
  number it denotes. The two zeros are one value \<open>Fin 0\<close>: they compare equal, and the
  program never divides, takes a sign or otherwise tells them apart. The numbers that
  binary64 can hold are the fixed points of \<open>round64\<close>; every operation below returns
  one of them (or an infinity or NaN).
\<close>

datatype double = NaN | PInf | NInf | Fin real

text \<open>\<open>pow2 e\<close> is \<open>2\<close> to the power \<open>e\<close>, for an exponent of either sign.\<close>

definition pow2 :: "int \<Rightarrow> real" where
  "pow2 e = (if 0 \<le> e then 2 ^ nat e else 1 / 2 ^ nat (- e))"

text \<open>
  The binary exponent of a positive real: the \<open>e\<close> with \<open>pow2 e \<le> x < pow2 (e + 1)\<close>
  (lemma \<open>expo_bounds\<close>).
\<close>

function expo :: "real \<Rightarrow> int" where
  "expo x = (if 2 \<le> x then expo (x / 2) + 1
             else if 0 < x \<and> x < 1 then expo (x * 2) - 1
             else 0)"
  by pat_completeness auto
termination
proof (relation "measure (\<lambda>x. if 1 \<le> x then nat \<lfloor>x\<rfloor> else if 0 < x then nat \<lceil>1 / x\<rceil> else 0)")
  show "wf (measure (\<lambda>x::real. if 1 \<le> x then nat \<lfloor>x\<rfloor> else if 0 < x then nat \<lceil>1 / x\<rceil> else 0))"
    by simp
next
  fix x :: real
  assume "2 \<le> x"
  then have "\<lfloor>x / 2\<rfloor> < \<lfloor>x\<rfloor>" by linarith
  with \<open>2 \<le> x\<close> show "(x / 2, x) \<in> measure (\<lambda>x. if 1 \<le> x then nat \<lfloor>x\<rfloor> else if 0 < x then nat \<lceil>1 / x\<rceil> else 0)"
    by simp
next
  fix x :: real
  assume a: "\<not> 2 \<le> x" "0 < x \<and> x < 1"
  then have x: "0 < x" "x < 1" by auto
  then have i: "1 < 1 / x" by simp
  show "(x * 2, x) \<in> measure (\<lambda>x. if 1 \<le> x then nat \<lfloor>x\<rfloor> else if 0 < x then nat \<lceil>1 / x\<rceil> else 0)"
  proof (cases "1 \<le> x * 2")
    case True
    with x have "\<lfloor>x * 2\<rfloor> = 1" by linarith
    moreover from i have "2 \<le> \<lceil>1 / x\<rceil>" by linarith
    ultimately show ?thesis using True x by simp
  next
    case False
    then have "2 < 1 / x" using x by (simp add: field_simps)
    have "1 / (x * 2) = (1 / x) / 2" by simp
    then have "\<lceil>1 / (x * 2)\<rceil> < \<lceil>1 / x\<rceil>" using \<open>2 < 1 / x\<close> by linarith
    moreover have "0 < \<lceil>1 / x\<rceil>" using i by linarith
    ultimately show ?thesis using False x by simp
  qed
qed

text \<open>The nearest integer, a tie going to the even one.\<close>

definition roundHalfEven :: "real \<Rightarrow> int" where
  "roundHalfEven q =
     (let f = \<lfloor>q\<rfloor>; r = q - of_int f in
      if r < 1 / 2 then f else if 1 / 2 < r then f + 1 else if even f then f else f + 1)"

text \<open>
  Rounding a real to binary64, to nearest with ties to even. With \<open>e\<close> the exponent of
  \<open>x\<close>, but at least the smallest normal exponent \<open>-1022\<close>, the numbers of that binade
  are the integer multiples of \<open>u = pow2 (e - 52)\<close> (53 significant bits); \<open>x\<close> goes to
  the nearest multiple, and to an infinity when that reaches \<open>2 ^ 1024\<close>.
\<close>

definition round64 :: "real \<Rightarrow> double" where
  "round64 x =
     (if x = 0 then Fin 0
      else
        let e = max (expo \<bar>x\<bar>) (- 1022);
            u = pow2 (e - 52);
            y = of_int (roundHalfEven (x / u)) * u
        in if 2 ^ 1024 \<le> \<bar>y\<bar> then (if 0 < x then PInf else NInf) else Fin y)"

text \<open>\<^verbatim>\<open>a + b\<close> and \<^verbatim>\<open>a - b\<close> on doubles.\<close>

fun dadd :: "double \<Rightarrow> double \<Rightarrow> double" where
  "dadd NaN b = NaN"
| "dadd a NaN = NaN"
| "dadd PInf NInf = NaN"
| "dadd NInf PInf = NaN"
| "dadd PInf b = PInf"
| "dadd a PInf = PInf"
| "dadd NInf b = NInf"
| "dadd a NInf = NInf"
| "dadd (Fin x) (Fin y) = round64 (x + y)"

fun dsub :: "double \<Rightarrow> double \<Rightarrow> double" where
  "dsub NaN b = NaN"
| "dsub a NaN = NaN"
| "dsub PInf PInf = NaN"
| "dsub NInf NInf = NaN"
| "dsub PInf b = PInf"
| "dsub a PInf = NInf"
| "dsub NInf b = NInf"
| "dsub a NInf = PInf"
| "dsub (Fin x) (Fin y) = round64 (x - y)"

text \<open>\<^verbatim>\<open>a < b\<close> and \<^verbatim>\<open>a <= b\<close> on doubles: false as soon as one side is NaN.\<close>

fun dlt :: "double \<Rightarrow> double \<Rightarrow> bool" where
  "dlt NaN b = False"
| "dlt a NaN = False"
| "dlt PInf b = False"
| "dlt a NInf = False"
| "dlt NInf b = True"
| "dlt a PInf = True"
| "dlt (Fin x) (Fin y) = (x < y)"

fun dle :: "double \<Rightarrow> double \<Rightarrow> bool" where
  "dle NaN b = False"
| "dle a NaN = False"
| "dle NInf b = True"
| "dle a PInf = True"
| "dle PInf b = False"
| "dle a NInf = False"
| "dle (Fin x) (Fin y) = (x \<le> y)"

section \<open>State and operations\<close>

definition MAX_ACCOUNTS :: int where
  "MAX_ACCOUNTS = 1000"

definition MAX_PROCESSES :: int where
  "MAX_PROCESSES = 100"

record Account =
  id_acc :: int
  customerId :: string
  balance :: double
  active :: bool

record Process =
  tid :: int
  aid :: int
  type_proc :: string
  amount :: double
  status :: string

record BankSystem =
  accounts :: "Account list"
  processes :: "Process list"
  nextAccountId :: int
  nextTransactionId :: int

definition accountCount :: "BankSystem \<Rightarrow> int" where
  "accountCount s = int (length (accounts s))"

definition processCount :: "BankSystem \<Rightarrow> int" where
  "processCount s = int (length (processes s))"

text \<open>The object as its default member initialisers leave it.\<close>

definition initBank :: BankSystem where
  "initBank = \<lparr>accounts = [], processes = [], nextAccountId = 1, nextTransactionId = 1\<rparr>"

text \<open>
  The error messages of the program, by the name the specification gives each:
  \<^item> \<open>CapacityExceeded\<close>: ``Maximum account limit reached.'' / ``Maximum process limit reached.''
  \<^item> \<open>InvalidAmount\<close>: ``Initial balance cannot be negative.'' / ``Invalid deposit amount.''
  \<^item> \<open>AccountNotFound\<close>: ``Account not found for transaction ...'' / ``Invalid account ID.''
  \<^item> \<open>TransactionNotFound\<close>: ``Transaction ID not found.''
  \<^item> \<open>InsufficientFundsOrInvalidAmount\<close>: ``Insufficient funds or invalid withdrawal amount.''
  \<^item> \<open>UnknownTransactionType\<close>: ``Unknown transaction type.''
\<close>

datatype error =
    CapacityExceeded
  | InvalidAmount
  | AccountNotFound
  | TransactionNotFound
  | InsufficientFundsOrInvalidAmount
  | UnknownTransactionType

subsection \<open>\<^verbatim>\<open>createAccount\<close>\<close>

definition createAccount :: "BankSystem \<Rightarrow> string \<Rightarrow> double \<Rightarrow> (error + int) \<times> BankSystem" where
  "createAccount s cid initialBalance =
     (if accountCount s \<ge> MAX_ACCOUNTS then (Inl CapacityExceeded, s)
      else if dlt initialBalance (Fin 0) then (Inl InvalidAmount, s)
      else
        let accountId = nextAccountId s in
        (Inr accountId,
         s\<lparr>accounts := accounts s @
              [\<lparr>id_acc = accountId, customerId = cid, balance = initialBalance, active = True\<rparr>],
           nextAccountId := accountId + 1\<rparr>))"

subsection \<open>\<^verbatim>\<open>createProcess\<close>\<close>

definition createProcess :: "BankSystem \<Rightarrow> int \<Rightarrow> string \<Rightarrow> double \<Rightarrow> (error + int) \<times> BankSystem" where
  "createProcess s accountId ty amt =
     (if processCount s \<ge> MAX_PROCESSES then (Inl CapacityExceeded, s)
      else
        let t = nextTransactionId s in
        (Inr t,
         s\<lparr>processes := processes s @
              [\<lparr>tid = t, aid = accountId, type_proc = ty, amount = amt, status = ''Pending''\<rparr>],
           nextTransactionId := t + 1\<rparr>))"

subsection \<open>\<^verbatim>\<open>findAccount\<close>\<close>

text \<open>
  The loop \<^verbatim>\<open>for (i = 0; i < accountCount; i++)\<close> returns the address of the first slot
  that is active and carries the id, or \<^verbatim>\<open>nullptr\<close>.
\<close>

fun findAccountIn :: "Account list \<Rightarrow> int \<Rightarrow> nat option" where
  "findAccountIn [] accountId = None"
| "findAccountIn (a # rest) accountId =
     (if active a \<and> id_acc a = accountId then Some 0
      else map_option Suc (findAccountIn rest accountId))"

definition findAccount :: "BankSystem \<Rightarrow> int \<Rightarrow> nat option" where
  "findAccount s accountId = findAccountIn (accounts s) accountId"

subsection \<open>\<^verbatim>\<open>executeProcess\<close>\<close>

text \<open>The search loop of \<^verbatim>\<open>executeProcess\<close>: the first slot whose \<^verbatim>\<open>tid\<close> matches.\<close>

fun findProcessIn :: "Process list \<Rightarrow> int \<Rightarrow> nat option" where
  "findProcessIn [] t = None"
| "findProcessIn (p # rest) t =
     (if tid p = t then Some 0 else map_option Suc (findProcessIn rest t))"

text \<open>\<^verbatim>\<open>proc.status = ...\<close> and \<^verbatim>\<open>acc->balance = ...\<close> through the reference and the pointer.\<close>

definition setStatus :: "BankSystem \<Rightarrow> nat \<Rightarrow> string \<Rightarrow> BankSystem" where
  "setStatus s i st = s\<lparr>processes := (processes s)[i := (processes s ! i)\<lparr>status := st\<rparr>]\<rparr>"

definition setBalance :: "BankSystem \<Rightarrow> nat \<Rightarrow> double \<Rightarrow> BankSystem" where
  "setBalance s j b = s\<lparr>accounts := (accounts s)[j := (accounts s ! j)\<lparr>balance := b\<rparr>]\<rparr>"

text \<open>The result is the error reported, or \<open>None\<close> when the transaction was applied.\<close>

definition executeProcess :: "BankSystem \<Rightarrow> int \<Rightarrow> error option \<times> BankSystem" where
  "executeProcess s t =
     (case findProcessIn (processes s) t of
        None \<Rightarrow> (Some TransactionNotFound, s)
      | Some i \<Rightarrow>
          let proc = processes s ! i in
          (case findAccount s (aid proc) of
             None \<Rightarrow> (Some AccountNotFound, setStatus s i ''Failed'')
           | Some j \<Rightarrow>
               let acc = accounts s ! j in
               if type_proc proc = ''Deposit'' then
                 (if dle (amount proc) (Fin 0) then (Some InvalidAmount, setStatus s i ''Failed'')
                  else (None, setStatus (setBalance s j (dadd (balance acc) (amount proc))) i ''Completed''))
               else if type_proc proc = ''Withdraw'' then
                 (if dle (amount proc) (Fin 0) \<or> dlt (balance acc) (amount proc)
                  then (Some InsufficientFundsOrInvalidAmount, setStatus s i ''Failed'')
                  else (None, setStatus (setBalance s j (dsub (balance acc) (amount proc))) i ''Completed''))
               else (Some UnknownTransactionType, setStatus s i ''Failed'')))"

subsection \<open>\<^verbatim>\<open>checkBalance\<close>\<close>

text \<open>The method reads only; on an unknown id it prints the error and returns \<^verbatim>\<open>-1\<close>.\<close>

definition checkBalance :: "BankSystem \<Rightarrow> int \<Rightarrow> error + double" where
  "checkBalance s accountId =
     (case findAccount s accountId of
        None \<Rightarrow> Inl AccountNotFound
      | Some j \<Rightarrow> Inr (balance (accounts s ! j)))"

subsection \<open>Runs of the system\<close>

text \<open>The calls a client can make on the object, and the states they lead to.\<close>

datatype operation =
    CreateAccount string double
  | CreateProcess int string double
  | ExecuteProcess int
  | CheckBalance int

fun step :: "BankSystem \<Rightarrow> operation \<Rightarrow> BankSystem" where
  "step s (CreateAccount cid b) = snd (createAccount s cid b)"
| "step s (CreateProcess a ty amt) = snd (createProcess s a ty amt)"
| "step s (ExecuteProcess t) = snd (executeProcess s t)"
| "step s (CheckBalance a) = s"

definition run :: "BankSystem \<Rightarrow> operation list \<Rightarrow> BankSystem" where
  "run s ops = foldl step s ops"

inductive reachable :: "BankSystem \<Rightarrow> bool" where
  init: "reachable initBank"
| step: "reachable s \<Longrightarrow> reachable (step s op)"

subsection \<open>Well-formed states\<close>

text \<open>
  What every state that the operations can produce satisfies: the counters follow the
  counts, which stay within the capacities; the account in slot \<open>k\<close> has id \<open>k + 1\<close> and
  is active; the transaction in slot \<open>k\<close> has id \<open>k + 1\<close> and one of the three status
  strings.
\<close>

definition wf :: "BankSystem \<Rightarrow> bool" where
  "wf s \<longleftrightarrow>
     accountCount s \<le> MAX_ACCOUNTS \<and> nextAccountId s = accountCount s + 1 \<and>
     processCount s \<le> MAX_PROCESSES \<and> nextTransactionId s = processCount s + 1 \<and>
     (\<forall>k<length (accounts s).
        id_acc (accounts s ! k) = int k + 1 \<and> active (accounts s ! k)) \<and>
     (\<forall>k<length (processes s).
        tid (processes s ! k) = int k + 1 \<and>
        status (processes s ! k) \<in> {''Pending'', ''Completed'', ''Failed''})"

subsection \<open>A concrete state\<close>

text \<open>
  One account with balance 100 and five pending transactions: two withdrawals (one
  covered, one not), two deposits (one positive, one not) and a deposit to an account id
  that does not exist.
\<close>

definition exampleBank :: BankSystem where
  "exampleBank = run initBank
     [CreateAccount ''alice'' (Fin 100),
      CreateProcess 1 ''Withdraw'' (Fin 30),
      CreateProcess 1 ''Withdraw'' (Fin 200),
      CreateProcess 1 ''Deposit'' (Fin 50),
      CreateProcess 1 ''Deposit'' (Fin (- 5)),
      CreateProcess 7 ''Deposit'' (Fin 10)]"

subsection \<open>What a run returns\<close>

text \<open>
  The ids that the successful calls of \<^verbatim>\<open>createAccount\<close> (of \<^verbatim>\<open>createProcess\<close>)
  return while a list of operations runs from a state, in the order of the calls. A
  failed call returns \<^verbatim>\<open>-1\<close> and contributes nothing.
\<close>

fun accountIdsReturned :: "BankSystem \<Rightarrow> operation list \<Rightarrow> int list" where
  "accountIdsReturned s [] = []"
| "accountIdsReturned s (CreateAccount cid b # ops) =
     (case fst (createAccount s cid b) of Inr i \<Rightarrow> [i] | Inl e \<Rightarrow> []) @
     accountIdsReturned (step s (CreateAccount cid b)) ops"
| "accountIdsReturned s (op # ops) = accountIdsReturned (step s op) ops"

fun transactionIdsReturned :: "BankSystem \<Rightarrow> operation list \<Rightarrow> int list" where
  "transactionIdsReturned s [] = []"
| "transactionIdsReturned s (CreateProcess a ty amt # ops) =
     (case fst (createProcess s a ty amt) of Inr i \<Rightarrow> [i] | Inl e \<Rightarrow> []) @
     transactionIdsReturned (step s (CreateProcess a ty amt)) ops"
| "transactionIdsReturned s (op # ops) = transactionIdsReturned (step s op) ops"

subsection \<open>Further concrete states\<close>

text \<open>The account table filled to its capacity.\<close>

definition fullBank :: BankSystem where
  "fullBank = run initBank (replicate 1000 (CreateAccount ''a'' (Fin 0)))"

text \<open>One deposit of 50 created and executed on an account opened with 100.\<close>

definition finishedBank :: BankSystem where
  "finishedBank = run initBank
     [CreateAccount ''alice'' (Fin 100), CreateProcess 1 ''Deposit'' (Fin 50), ExecuteProcess 1]"

text \<open>An account with balance 100 and two pending transactions whose amount is NaN.\<close>

definition nanBank :: BankSystem where
  "nanBank = run initBank
     [CreateAccount ''alice'' (Fin 100),
      CreateProcess 1 ''Withdraw'' NaN,
      CreateProcess 1 ''Deposit'' NaN]"

subsection \<open>Calls without NaN\<close>



section \<open>Properties of the double operations\<close>

declare expo.simps [simp del]

lemmas double_eval = round64_def pow2_def roundHalfEven_def expo.simps


lemma pow2_Suc: "pow2 (e + 1) = 2 * pow2 e"
proof (cases "0 \<le> e")
  case True
  then show ?thesis by (simp add: pow2_def nat_add_distrib)
next
  case False
  then have "nat (- e) = Suc (nat (- (e + 1)))" by simp
  with False show ?thesis by (auto simp: pow2_def)
qed

lemma expo_bounds: "0 < x \<Longrightarrow> pow2 (expo x) \<le> x \<and> x < pow2 (expo x + 1)"
proof (induction x rule: expo.induct)
  case (1 x)
  show ?case
  proof (cases "2 \<le> x")
    case True
    then have e: "expo x = expo (x / 2) + 1" by (simp add: expo.simps)
    from True "1.prems" have "0 < x / 2" by simp
    from "1.IH"(1) [OF True this]
    have "pow2 (expo (x / 2)) \<le> x / 2" and "x / 2 < pow2 (expo (x / 2) + 1)" by simp_all
    moreover have "pow2 (expo (x / 2) + 1) = 2 * pow2 (expo (x / 2))" by (rule pow2_Suc)
    moreover have "pow2 (expo (x / 2) + 1 + 1) = 2 * pow2 (expo (x / 2) + 1)" by (rule pow2_Suc)
    ultimately have "pow2 (expo (x / 2) + 1) \<le> x \<and> x < pow2 (expo (x / 2) + 1 + 1)"
      by linarith
    then show ?thesis by (simp only: e)
  next
    case False
    show ?thesis
    proof (cases "x < 1")
      case True
      with False "1.prems" have e: "expo x = expo (x * 2) - 1" by (simp add: expo.simps)
      from "1.prems" have "0 < x * 2" by simp
      from "1.IH"(2) [OF False _ this] True "1.prems"
      have "pow2 (expo (x * 2)) \<le> x * 2" and "x * 2 < pow2 (expo (x * 2) + 1)" by simp_all
      moreover have "pow2 (expo (x * 2)) = 2 * pow2 (expo (x * 2) - 1)"
        using pow2_Suc [of "expo (x * 2) - 1"] by simp
      moreover have "pow2 (expo (x * 2) + 1) = 2 * pow2 (expo (x * 2))" by (rule pow2_Suc)
      moreover have "expo (x * 2) - 1 + 1 = expo (x * 2)" by simp
      ultimately have "pow2 (expo (x * 2) - 1) \<le> x \<and> x < pow2 (expo (x * 2) - 1 + 1)"
        by (simp only:) linarith
      then show ?thesis by (simp only: e)
    next
      case False
      with \<open>\<not> 2 \<le> x\<close> have "expo x = 0" by (simp add: expo.simps)
      with False \<open>\<not> 2 \<le> x\<close> show ?thesis by (simp add: pow2_def)
    qed
  qed
qed



lemma dlt_not_dle: "dlt a b \<Longrightarrow> \<not> dle b a"
  by (cases a; cases b) auto

lemma dle_not_dlt: "dle a b \<Longrightarrow> \<not> dlt b a"
  by (cases a; cases b) auto

lemma dle_zero_cases: "dle (Fin 0) b \<longleftrightarrow> b = PInf \<or> (\<exists>y. b = Fin y \<and> 0 \<le> y)"
  by (cases b) auto



section \<open>Lookup\<close>

lemma findProcessIn_Some_iff:
  "findProcessIn ps t = Some i \<longleftrightarrow>
     i < length ps \<and> tid (ps ! i) = t \<and> (\<forall>k<i. tid (ps ! k) \<noteq> t)"
proof (induction ps arbitrary: i)
  case Nil
  show ?case by simp
next
  case (Cons p ps)
  show ?case
  proof (cases "tid p = t")
    case True
    then show ?thesis by (cases i) auto
  next
    case False
    show ?thesis
    proof (cases i)
      case 0
      with False show ?thesis by auto
    next
      case (Suc n)
      have "(\<forall>k<Suc n. tid ((p # ps) ! k) \<noteq> t) \<longleftrightarrow> (\<forall>k<n. tid (ps ! k) \<noteq> t)"
        using False by (auto simp: less_Suc_eq_0_disj)
      with False Suc Cons.IH [of n] show ?thesis by auto
    qed
  qed
qed

lemma findProcessIn_None_iff:
  "findProcessIn ps t = None \<longleftrightarrow> (\<forall>p\<in>set ps. tid p \<noteq> t)"
  by (induction ps) auto

lemma findAccountIn_Some_iff:
  "findAccountIn as a = Some j \<longleftrightarrow>
     j < length as \<and> active (as ! j) \<and> id_acc (as ! j) = a \<and>
     (\<forall>k<j. \<not> (active (as ! k) \<and> id_acc (as ! k) = a))"
proof (induction as arbitrary: j)
  case Nil
  show ?case by simp
next
  case (Cons x as)
  show ?case
  proof (cases "active x \<and> id_acc x = a")
    case True
    then show ?thesis by (cases j) auto
  next
    case False
    show ?thesis
    proof (cases j)
      case 0
      with False show ?thesis by auto
    next
      case (Suc n)
      have "(\<forall>k<Suc n. \<not> (active ((x # as) ! k) \<and> id_acc ((x # as) ! k) = a))
            \<longleftrightarrow> (\<forall>k<n. \<not> (active (as ! k) \<and> id_acc (as ! k) = a))"
        using False by (auto simp: less_Suc_eq_0_disj)
      with False Suc Cons.IH [of n] show ?thesis by auto
    qed
  qed
qed

lemma findAccountIn_None_iff:
  "findAccountIn as a = None \<longleftrightarrow> (\<forall>x\<in>set as. \<not> (active x \<and> id_acc x = a))"
  by (induction as) auto

section \<open>Invariants of the reachable states\<close>

lemma nth_update_cases: "xs[i := x] ! j = (if i = j \<and> i < length xs then x else xs ! j)"
  by (cases "i < length xs") (auto simp: nth_list_update list_update_beyond)

lemma wf_init: "wf initBank"
  by (simp add: wf_def initBank_def accountCount_def processCount_def MAX_ACCOUNTS_def MAX_PROCESSES_def)

lemma wf_createAccount: "wf s \<Longrightarrow> wf (snd (createAccount s cid b))"
  by (auto simp: wf_def createAccount_def accountCount_def processCount_def MAX_ACCOUNTS_def
      Let_def nth_append less_Suc_eq)

lemma wf_createProcess: "wf s \<Longrightarrow> wf (snd (createProcess s a ty amt))"
  by (auto simp: wf_def createProcess_def accountCount_def processCount_def MAX_PROCESSES_def
      Let_def nth_append less_Suc_eq)

lemma wf_setStatus:
  "wf s \<Longrightarrow> st \<in> {''Pending'', ''Completed'', ''Failed''} \<Longrightarrow> wf (setStatus s i st)"
  by (auto simp: wf_def setStatus_def accountCount_def processCount_def nth_update_cases)

lemma wf_setBalance: "wf s \<Longrightarrow> wf (setBalance s j b)"
  by (auto simp: wf_def setBalance_def accountCount_def processCount_def nth_update_cases)


lemma wf_executeProcess:
  assumes "wf s"
  shows "wf (snd (executeProcess s t))"
proof (cases "findProcessIn (processes s) t")
  case None
  with assms show ?thesis by (simp add: executeProcess_def)
next
  case (Some i)
  show ?thesis
  proof (cases "findAccount s (aid (processes s ! i))")
    case None
    with Some assms show ?thesis by (simp add: executeProcess_def wf_setStatus)
  next
    case (Some j)
    from \<open>findProcessIn (processes s) t = Some i\<close> Some assms show ?thesis
      by (simp add: executeProcess_def Let_def wf_setStatus wf_setBalance)
  qed
qed

lemma wf_step: "wf s \<Longrightarrow> wf (step s op)"
  by (cases op) (simp_all add: wf_createAccount wf_createProcess wf_executeProcess)

lemma reachable_wf: "reachable s \<Longrightarrow> wf s"
  by (induction rule: reachable.induct) (simp_all add: wf_init wf_step)

lemma reachable_run: "reachable s \<Longrightarrow> reachable (run s ops)"
  unfolding run_def by (induction ops arbitrary: s) (simp_all add: reachable.step)

lemma reachable_counters:
  "reachable s \<Longrightarrow>
     nextAccountId s = accountCount s + 1 \<and> accountCount s \<le> 1000 \<and>
     nextTransactionId s = processCount s + 1 \<and> processCount s \<le> 100"
  using reachable_wf [of s] by (simp add: wf_def MAX_ACCOUNTS_def MAX_PROCESSES_def)

lemma wf_findProcess:
  assumes "wf s" "i < length (processes s)"
  shows "findProcessIn (processes s) (tid (processes s ! i)) = Some i"
proof -
  have "\<forall>k<i. tid (processes s ! k) \<noteq> tid (processes s ! i)"
    using assms by (simp add: wf_def)
  with assms show ?thesis by (simp add: findProcessIn_Some_iff)
qed

lemma wf_findAccount:
  assumes "wf s" "j < length (accounts s)"
  shows "findAccount s (id_acc (accounts s ! j)) = Some j"
proof -
  have "\<forall>k<j. id_acc (accounts s ! k) \<noteq> id_acc (accounts s ! j)"
    using assms by (simp add: wf_def)
  moreover have "active (accounts s ! j)" using assms by (simp add: wf_def)
  ultimately show ?thesis using assms by (simp add: findAccount_def findAccountIn_Some_iff)
qed

section \<open>The effect of \<^verbatim>\<open>executeProcess\<close>\<close>

lemmas bank_defs =
  run_def initBank_def createAccount_def createProcess_def executeProcess_def
  checkBalance_def accountCount_def processCount_def MAX_ACCOUNTS_def MAX_PROCESSES_def
  findAccount_def setStatus_def setBalance_def Let_def

lemma executeProcess_found:
  assumes "findProcessIn (processes s) t = Some i"
    and "findAccount s (aid (processes s ! i)) = Some j"
  shows "executeProcess s t =
     (if type_proc (processes s ! i) = ''Deposit'' then
        (if dle (amount (processes s ! i)) (Fin 0) then (Some InvalidAmount, setStatus s i ''Failed'')
         else (None, setStatus (setBalance s j (dadd (balance (accounts s ! j)) (amount (processes s ! i)))) i ''Completed''))
      else if type_proc (processes s ! i) = ''Withdraw'' then
        (if dle (amount (processes s ! i)) (Fin 0) \<or> dlt (balance (accounts s ! j)) (amount (processes s ! i))
         then (Some InsufficientFundsOrInvalidAmount, setStatus s i ''Failed'')
         else (None, setStatus (setBalance s j (dsub (balance (accounts s ! j)) (amount (processes s ! i)))) i ''Completed''))
      else (Some UnknownTransactionType, setStatus s i ''Failed''))"
  using assms by (simp add: executeProcess_def Let_def)

lemma executeProcess_no_account:
  assumes "findProcessIn (processes s) t = Some i"
    and "findAccount s (aid (processes s ! i)) = None"
  shows "executeProcess s t = (Some AccountNotFound, setStatus s i ''Failed'')"
  using assms by (simp add: executeProcess_def Let_def)

lemma executeProcess_no_process:
  "findProcessIn (processes s) t = None \<Longrightarrow> executeProcess s t = (Some TransactionNotFound, s)"
  by (simp add: executeProcess_def)

lemma status_setStatus:
  "i < length (processes s) \<Longrightarrow> status (processes (setStatus s i st) ! i) = st"
  by (simp add: setStatus_def)

lemma accounts_setStatus: "accounts (setStatus s i st) = accounts s"
  by (simp add: setStatus_def)

lemma processes_setBalance: "processes (setBalance s j b) = processes s"
  by (simp add: setBalance_def)

lemma balance_setBalance:
  "j < length (accounts s) \<Longrightarrow> balance (accounts (setBalance s j b) ! j) = b"
  by (simp add: setBalance_def)


lemma exampleBank_reachable: "reachable exampleBank"
  unfolding exampleBank_def by (rule reachable_run [OF reachable.init])

lemma exampleBank_eq:
  "exampleBank =
     \<lparr>accounts = [\<lparr>id_acc = 1, customerId = ''alice'', balance = Fin 100, active = True\<rparr>],
      processes =
        [\<lparr>tid = 1, aid = 1, type_proc = ''Withdraw'', amount = Fin 30, status = ''Pending''\<rparr>,
         \<lparr>tid = 2, aid = 1, type_proc = ''Withdraw'', amount = Fin 200, status = ''Pending''\<rparr>,
         \<lparr>tid = 3, aid = 1, type_proc = ''Deposit'', amount = Fin 50, status = ''Pending''\<rparr>,
         \<lparr>tid = 4, aid = 1, type_proc = ''Deposit'', amount = Fin (- 5), status = ''Pending''\<rparr>,
         \<lparr>tid = 5, aid = 7, type_proc = ''Deposit'', amount = Fin 10, status = ''Pending''\<rparr>],
      nextAccountId = 2, nextTransactionId = 6\<rparr>"
  by (simp add: exampleBank_def bank_defs)


lemma findProcessIn_bound: "findProcessIn ps t = Some i \<Longrightarrow> i < length ps"
  by (simp add: findProcessIn_Some_iff)

lemma executeProcess_shape:
  assumes "findProcessIn (processes s) t = Some i"
  shows "\<exists>st. (\<exists>j b. findAccount s (aid (processes s ! i)) = Some j \<and>
                 snd (executeProcess s t) = setStatus (setBalance s j b) i st)
             \<or> snd (executeProcess s t) = setStatus s i st"
proof (cases "findAccount s (aid (processes s ! i))")
  case None
  with assms show ?thesis by (auto simp: executeProcess_no_account)
next
  case (Some j)
  with assms show ?thesis by (auto simp: executeProcess_found)
qed

section \<open>Counters, runs and single transactions\<close>

lemma executeProcess_counters:
  "nextAccountId (snd (executeProcess s t)) = nextAccountId s \<and>
   nextTransactionId (snd (executeProcess s t)) = nextTransactionId s"
  by (simp add: executeProcess_def setStatus_def setBalance_def Let_def split: option.split)

lemma nextAccountId_step: "nextAccountId s \<le> nextAccountId (step s op)"
  by (cases op) (simp_all add: createAccount_def createProcess_def Let_def executeProcess_counters)

lemma nextTransactionId_step: "nextTransactionId s \<le> nextTransactionId (step s op)"
  by (cases op) (simp_all add: createAccount_def createProcess_def Let_def executeProcess_counters)

lemma accountIdsReturned_sorted:
  "(\<forall>x\<in>set (accountIdsReturned s ops). nextAccountId s \<le> x) \<and>
   sorted_wrt (<) (accountIdsReturned s ops)"
proof (induction ops arbitrary: s)
  case Nil
  show ?case by simp
next
  case (Cons op ops)
  have mono: "\<forall>x\<in>set (accountIdsReturned (step s op) ops). nextAccountId s \<le> x"
    using Cons.IH [of "step s op"] nextAccountId_step [of s op] by fastforce
  show ?case
  proof (cases op)
    case (CreateAccount cid b)
    show ?thesis
    proof (cases "fst (createAccount s cid b)")
      case (Inl e)
      with CreateAccount mono Cons.IH [of "step s op"] show ?thesis by simp
    next
      case (Inr i)
      then have i: "i = nextAccountId s"
        and n: "nextAccountId (step s op) = nextAccountId s + 1"
        using CreateAccount by (auto simp: createAccount_def Let_def split: if_splits)
      have "\<forall>x\<in>set (accountIdsReturned (step s op) ops). i < x"
        using Cons.IH [of "step s op"] i n by fastforce
      with CreateAccount Inr i mono Cons.IH [of "step s op"] show ?thesis by simp
    qed
  next
    case (CreateProcess a ty amt)
    with mono Cons.IH [of "step s op"] show ?thesis by simp
  next
    case (ExecuteProcess t)
    with mono Cons.IH [of "step s op"] show ?thesis by simp
  next
    case (CheckBalance a)
    with mono Cons.IH [of "step s op"] show ?thesis by simp
  qed
qed

lemma transactionIdsReturned_sorted:
  "(\<forall>x\<in>set (transactionIdsReturned s ops). nextTransactionId s \<le> x) \<and>
   sorted_wrt (<) (transactionIdsReturned s ops)"
proof (induction ops arbitrary: s)
  case Nil
  show ?case by simp
next
  case (Cons op ops)
  have mono: "\<forall>x\<in>set (transactionIdsReturned (step s op) ops). nextTransactionId s \<le> x"
    using Cons.IH [of "step s op"] nextTransactionId_step [of s op] by fastforce
  show ?case
  proof (cases op)
    case (CreateProcess a ty amt)
    show ?thesis
    proof (cases "fst (createProcess s a ty amt)")
      case (Inl e)
      with CreateProcess mono Cons.IH [of "step s op"] show ?thesis by simp
    next
      case (Inr i)
      then have i: "i = nextTransactionId s"
        and n: "nextTransactionId (step s op) = nextTransactionId s + 1"
        using CreateProcess by (auto simp: createProcess_def Let_def split: if_splits)
      have "\<forall>x\<in>set (transactionIdsReturned (step s op) ops). i < x"
        using Cons.IH [of "step s op"] i n by fastforce
      with CreateProcess Inr i mono Cons.IH [of "step s op"] show ?thesis by simp
    qed
  next
    case (CreateAccount cid b)
    with mono Cons.IH [of "step s op"] show ?thesis by simp
  next
    case (ExecuteProcess t)
    with mono Cons.IH [of "step s op"] show ?thesis by simp
  next
    case (CheckBalance a)
    with mono Cons.IH [of "step s op"] show ?thesis by simp
  qed
qed

lemma run_Cons: "run s (op # ops) = run (step s op) ops"
  by (simp add: run_def)

lemma run_Nil: "run s [] = s"
  by (simp add: run_def)

lemma accountCount_replicate_create:
  "accountCount s + int n \<le> MAX_ACCOUNTS \<Longrightarrow>
     accountCount (run s (replicate n (CreateAccount cid (Fin 0)))) = accountCount s + int n"
proof (induction n arbitrary: s)
  case 0
  show ?case by (simp add: run_Nil)
next
  case (Suc n)
  have c: "accountCount (step s (CreateAccount cid (Fin 0))) = accountCount s + 1"
    using Suc.prems by (simp add: createAccount_def accountCount_def Let_def)
  with Suc.prems have "accountCount (step s (CreateAccount cid (Fin 0))) + int n \<le> MAX_ACCOUNTS"
    by simp
  from Suc.IH [OF this] c show ?case by (simp add: run_Cons)
qed

lemma fullBank_count: "accountCount fullBank = 1000"
  unfolding fullBank_def
  using accountCount_replicate_create [of initBank 1000 "''a''"]
  by (simp add: MAX_ACCOUNTS_def) (simp add: accountCount_def initBank_def)

lemma fullBank_reachable: "reachable fullBank"
  unfolding fullBank_def by (rule reachable_run [OF reachable.init])

lemma length_processes_step: "length (processes s) \<le> length (processes (step s op))"
proof (cases op)
  case (ExecuteProcess t)
  then show ?thesis
    by (simp add: executeProcess_def setStatus_def setBalance_def Let_def split: option.split)
qed (simp_all add: createAccount_def createProcess_def Let_def)

lemma process_unchanged_by_other_tid:
  assumes "t \<noteq> tid (processes s ! i)"
  shows "processes (snd (executeProcess s t)) ! i = processes s ! i"
proof (cases "findProcessIn (processes s) t")
  case None
  then show ?thesis by (simp add: executeProcess_no_process)
next
  case (Some k)
  then have "tid (processes s ! k) = t" by (simp add: findProcessIn_Some_iff)
  with assms have ki: "k \<noteq> i" by auto
  from executeProcess_shape [OF Some] ki show ?thesis
    by (auto simp: setStatus_def setBalance_def nth_update_cases)
qed

lemma process_after_execute:
  assumes "i < length (processes s)"
  shows "tid (processes (snd (executeProcess s t)) ! i) = tid (processes s ! i)
       \<and> (processes (snd (executeProcess s t)) ! i = processes s ! i
          \<or> status (processes (snd (executeProcess s t)) ! i) \<in> {''Completed'', ''Failed''})"
proof (cases "findProcessIn (processes s) t")
  case None
  then show ?thesis by (simp add: executeProcess_no_process)
next
  case (Some k)
  show ?thesis
  proof (cases "findAccount s (aid (processes s ! k))")
    case None
    with Some assms show ?thesis
      by (simp add: executeProcess_no_account setStatus_def nth_update_cases)
  next
    case (Some j)
    with \<open>findProcessIn (processes s) t = Some k\<close> assms show ?thesis
      by (simp add: executeProcess_found setStatus_def setBalance_def nth_update_cases)
  qed
qed

lemma process_step:
  assumes "i < length (processes s)"
  shows "i < length (processes (step s op))
       \<and> tid (processes (step s op) ! i) = tid (processes s ! i)
       \<and> (status (processes s ! i) \<in> {''Completed'', ''Failed''} \<longrightarrow>
            status (processes (step s op) ! i) \<in> {''Completed'', ''Failed''})
       \<and> (op \<noteq> ExecuteProcess (tid (processes s ! i)) \<longrightarrow>
            processes (step s op) ! i = processes s ! i)"
proof -
  have len: "i < length (processes (step s op))"
    using assms length_processes_step [of s op] by simp
  show ?thesis
  proof (cases op)
    case (CreateAccount cid b)
    with assms show ?thesis by (simp add: createAccount_def Let_def)
  next
    case (CreateProcess a ty amt)
    with assms show ?thesis by (simp add: createProcess_def Let_def nth_append)
  next
    case (ExecuteProcess t)
    with len process_after_execute [OF assms, of t] process_unchanged_by_other_tid [of t s i]
    show ?thesis by auto
  next
    case (CheckBalance a)
    with assms show ?thesis by simp
  qed
qed

lemma process_run:
  assumes "i < length (processes s)"
    and "status (processes s ! i) \<in> {''Completed'', ''Failed''}"
  shows "i < length (processes (run s ops))
       \<and> tid (processes (run s ops) ! i) = tid (processes s ! i)
       \<and> status (processes (run s ops) ! i) \<in> {''Completed'', ''Failed''}
       \<and> (ExecuteProcess (tid (processes s ! i)) \<notin> set ops \<longrightarrow>
            processes (run s ops) ! i = processes s ! i)"
  using assms
proof (induction ops arbitrary: s)
  case Nil
  then show ?case by (simp add: run_Nil)
next
  case (Cons op ops)
  note st = process_step [OF Cons.prems(1), of op]
  from st Cons.prems(2) have 1: "i < length (processes (step s op))"
    and 2: "status (processes (step s op) ! i) \<in> {''Completed'', ''Failed''}"
    by blast+
  from Cons.IH [OF 1 2] st show ?case
    by (auto simp: run_Cons)
qed

lemma executeProcess_ignores_status:
  assumes "findProcessIn (processes s) t = Some i"
  shows "executeProcess (setStatus s i st) t = executeProcess s t"
proof -
  have i: "i < length (processes s)" using assms by (rule findProcessIn_bound)
  have "i < length (processes s) \<and> tid (processes s ! i) = t \<and>
        (\<forall>k<i. tid (processes s ! k) \<noteq> t)"
    using assms by (simp add: findProcessIn_Some_iff)
  then have f: "findProcessIn (processes (setStatus s i st)) t = Some i"
    by (simp add: findProcessIn_Some_iff setStatus_def nth_update_cases)
  have p: "processes (setStatus s i st) ! i = (processes s ! i)\<lparr>status := st\<rparr>"
    using i by (simp add: setStatus_def)
  have a: "findAccount (setStatus s i st) x = findAccount s x" for x
    by (simp add: findAccount_def setStatus_def)
  have u: "setStatus (setStatus s i st) i st' = setStatus s i st'" for st'
    using i by (simp add: setStatus_def)
  have v: "setStatus (setBalance (setStatus s i st) j b) i st' = setStatus (setBalance s j b) i st'"
    for j b st'
    using i by (simp add: setStatus_def setBalance_def)
  have acc: "accounts (setStatus s i st) = accounts s" by (simp add: setStatus_def)
  show ?thesis
    by (simp add: executeProcess_def f assms p a u v acc Let_def split: option.split)
qed

lemma finishedBank_reachable: "reachable finishedBank"
  unfolding finishedBank_def by (rule reachable_run [OF reachable.init])

lemma finishedBank_eq:
  "finishedBank =
     \<lparr>accounts = [\<lparr>id_acc = 1, customerId = ''alice'', balance = Fin 150, active = True\<rparr>],
      processes =
        [\<lparr>tid = 1, aid = 1, type_proc = ''Deposit'', amount = Fin 50, status = ''Completed''\<rparr>],
      nextAccountId = 2, nextTransactionId = 2\<rparr>"
  by (simp add: finishedBank_def bank_defs double_eval)

section \<open>Balances under ordinary calls\<close>







lemma nanBank_reachable: "reachable nanBank"
  unfolding nanBank_def by (rule reachable_run [OF reachable.init])

lemma nanBank_eq:
  "nanBank =
     \<lparr>accounts = [\<lparr>id_acc = 1, customerId = ''alice'', balance = Fin 100, active = True\<rparr>],
      processes =
        [\<lparr>tid = 1, aid = 1, type_proc = ''Withdraw'', amount = NaN, status = ''Pending''\<rparr>,
         \<lparr>tid = 2, aid = 1, type_proc = ''Deposit'', amount = NaN, status = ''Pending''\<rparr>],
      nextAccountId = 2, nextTransactionId = 3\<rparr>"
  by (simp add: nanBank_def bank_defs)

section \<open>The claims\<close>




text \<open>
  C2, as the program has it. Executing a pending \<^verbatim>\<open>Withdraw\<close> transaction of amount
  \<open>a\<close> on a stored account with balance \<open>b\<close>, all comparisons being those of doubles:
  when \<^verbatim>\<open>0 < a\<close> and \<^verbatim>\<open>a <= b\<close>, no error is reported, the status becomes
  \<^verbatim>\<open>Completed\<close> and the balance becomes the double \<^verbatim>\<open>b - a\<close>, that is the exact
  difference rounded to the nearest double; when \<^verbatim>\<open>b < a\<close> or \<^verbatim>\<open>a <= 0\<close>, the error for
  insufficient funds or an invalid amount is reported, the balance is unchanged and the
  status becomes \<^verbatim>\<open>Failed\<close>; in the remaining case, where \<open>a\<close> is NaN, or \<open>b\<close> is NaN
  and \<^verbatim>\<open>a <= 0\<close> is false, the transaction is \<^verbatim>\<open>Completed\<close> and the balance becomes NaN.
\<close>

theorem withdraw_execution:
  assumes "reachable s"
    and "i < length (processes s)"
    and "status (processes s ! i) = ''Pending''"
    and "type_proc (processes s ! i) = ''Withdraw''"
    and "j < length (accounts s)"
    and "id_acc (accounts s ! j) = aid (processes s ! i)"
  shows "(dlt (Fin 0) (amount (processes s ! i)) \<and>
          dle (amount (processes s ! i)) (balance (accounts s ! j)) \<longrightarrow>
           fst (executeProcess s (tid (processes s ! i))) = None \<and>
           balance (accounts (snd (executeProcess s (tid (processes s ! i)))) ! j) =
             dsub (balance (accounts s ! j)) (amount (processes s ! i)) \<and>
           status (processes (snd (executeProcess s (tid (processes s ! i)))) ! i) = ''Completed'')
       \<and> (dlt (balance (accounts s ! j)) (amount (processes s ! i)) \<or>
          dle (amount (processes s ! i)) (Fin 0) \<longrightarrow>
           fst (executeProcess s (tid (processes s ! i))) = Some InsufficientFundsOrInvalidAmount \<and>
           balance (accounts (snd (executeProcess s (tid (processes s ! i)))) ! j) =
             balance (accounts s ! j) \<and>
           status (processes (snd (executeProcess s (tid (processes s ! i)))) ! i) = ''Failed'')
       \<and> (amount (processes s ! i) = NaN \<or>
          balance (accounts s ! j) = NaN \<and> \<not> dle (amount (processes s ! i)) (Fin 0) \<longrightarrow>
           fst (executeProcess s (tid (processes s ! i))) = None \<and>
           balance (accounts (snd (executeProcess s (tid (processes s ! i)))) ! j) = NaN \<and>
           status (processes (snd (executeProcess s (tid (processes s ! i)))) ! i) = ''Completed'')"
proof -
  have w: "wf s" using assms(1) by (rule reachable_wf)
  have p: "findProcessIn (processes s) (tid (processes s ! i)) = Some i"
    using w assms(2) by (rule wf_findProcess)
  have a: "findAccount s (aid (processes s ! i)) = Some j"
    using wf_findAccount [OF w assms(5)] assms(6) by simp
  have n: "dsub b NaN = NaN" "dsub NaN b = NaN" "\<not> dlt b NaN" "\<not> dlt NaN b" for b
    by (cases b; simp)+
  show ?thesis
    using assms(2,4,5)
    by (auto simp: executeProcess_found [OF p a] status_setStatus accounts_setStatus
        processes_setBalance balance_setBalance n dest: dlt_not_dle dle_not_dlt)
qed

theorem withdraw_execution_witness:
  "reachable exampleBank
   \<and> fst (executeProcess exampleBank 1) = None
   \<and> balance (accounts (snd (executeProcess exampleBank 1)) ! 0) = Fin 70
   \<and> status (processes (snd (executeProcess exampleBank 1)) ! 0) = ''Completed''
   \<and> fst (executeProcess exampleBank 2) = Some InsufficientFundsOrInvalidAmount
   \<and> balance (accounts (snd (executeProcess exampleBank 2)) ! 0) = Fin 100
   \<and> status (processes (snd (executeProcess exampleBank 2)) ! 1) = ''Failed''
   \<and> reachable nanBank
   \<and> fst (executeProcess nanBank 1) = None
   \<and> balance (accounts (snd (executeProcess nanBank 1)) ! 0) = NaN
   \<and> status (processes (snd (executeProcess nanBank 1)) ! 0) = ''Completed''"
proof -
  have d: "round64 70 = Fin 70" by (simp add: double_eval)
  show ?thesis
    using exampleBank_reachable nanBank_reachable
      withdraw_execution [OF exampleBank_reachable, of 0 0]
      withdraw_execution [OF exampleBank_reachable, of 1 0]
      withdraw_execution [OF nanBank_reachable, of 0 0]
    by (simp add: exampleBank_eq nanBank_eq d)
qed

text \<open>
  C2, as stated, fails: the balance after a completed withdrawal need not be the exact
  difference. Both \<open>2 ^ 54\<close> and \<open>1\<close> are doubles; withdrawing \<open>1\<close> from a balance of
  \<open>2 ^ 54\<close> is \<^verbatim>\<open>Completed\<close> and leaves the balance at \<open>2 ^ 54\<close>, not at
  \<open>2 ^ 54 - 1\<close>.
\<close>

theorem withdraw_rounding_counterexample:
  "round64 (2 ^ 54) = Fin (2 ^ 54) \<and> round64 1 = Fin 1
   \<and> map balance (accounts (run initBank
        [CreateAccount ''alice'' (Fin (2 ^ 54)), CreateProcess 1 ''Withdraw'' (Fin 1),
         ExecuteProcess 1])) = [Fin (2 ^ 54)]
   \<and> map status (processes (run initBank
        [CreateAccount ''alice'' (Fin (2 ^ 54)), CreateProcess 1 ''Withdraw'' (Fin 1),
         ExecuteProcess 1])) = [''Completed'']
   \<and> Fin (2 ^ 54) \<noteq> Fin (2 ^ 54 - 1)"
  by (simp add: bank_defs double_eval)

text \<open>
  C3, as the program has it. Executing a pending \<^verbatim>\<open>Deposit\<close> transaction of amount
  \<open>a\<close> on a stored, active account with balance \<open>b\<close>, all comparisons being those of
  doubles: when \<^verbatim>\<open>0 < a\<close>, no error is reported, the status becomes \<^verbatim>\<open>Completed\<close> and
  the balance becomes the double \<^verbatim>\<open>b + a\<close>, that is the exact sum rounded to the nearest
  double (an infinity on overflow); when \<^verbatim>\<open>a <= 0\<close>, the invalid amount is reported, the
  balance is unchanged and the status becomes \<^verbatim>\<open>Failed\<close>; in the remaining case, where
  \<open>a\<close> is NaN, the transaction is \<^verbatim>\<open>Completed\<close> and the balance becomes NaN.
\<close>

theorem deposit_execution:
  assumes "reachable s"
    and "i < length (processes s)"
    and "status (processes s ! i) = ''Pending''"
    and "type_proc (processes s ! i) = ''Deposit''"
    and "j < length (accounts s)"
    and "active (accounts s ! j)"
    and "id_acc (accounts s ! j) = aid (processes s ! i)"
  shows "(dlt (Fin 0) (amount (processes s ! i)) \<longrightarrow>
           fst (executeProcess s (tid (processes s ! i))) = None \<and>
           balance (accounts (snd (executeProcess s (tid (processes s ! i)))) ! j) =
             dadd (balance (accounts s ! j)) (amount (processes s ! i)) \<and>
           status (processes (snd (executeProcess s (tid (processes s ! i)))) ! i) = ''Completed'')
       \<and> (dle (amount (processes s ! i)) (Fin 0) \<longrightarrow>
           fst (executeProcess s (tid (processes s ! i))) = Some InvalidAmount \<and>
           balance (accounts (snd (executeProcess s (tid (processes s ! i)))) ! j) =
             balance (accounts s ! j) \<and>
           status (processes (snd (executeProcess s (tid (processes s ! i)))) ! i) = ''Failed'')
       \<and> (amount (processes s ! i) = NaN \<longrightarrow>
           fst (executeProcess s (tid (processes s ! i))) = None \<and>
           balance (accounts (snd (executeProcess s (tid (processes s ! i)))) ! j) = NaN \<and>
           status (processes (snd (executeProcess s (tid (processes s ! i)))) ! i) = ''Completed'')"
proof -
  have w: "wf s" using assms(1) by (rule reachable_wf)
  have p: "findProcessIn (processes s) (tid (processes s ! i)) = Some i"
    using w assms(2) by (rule wf_findProcess)
  have a: "findAccount s (aid (processes s ! i)) = Some j"
    using wf_findAccount [OF w assms(5)] assms(7) by simp
  have n: "dadd b NaN = NaN" for b
    by (cases b) simp_all
  show ?thesis
    using assms(2,4,5)
    by (auto simp: executeProcess_found [OF p a] status_setStatus accounts_setStatus
        processes_setBalance balance_setBalance n dest: dlt_not_dle)
qed

theorem deposit_execution_witness:
  "reachable exampleBank
   \<and> fst (executeProcess exampleBank 3) = None
   \<and> balance (accounts (snd (executeProcess exampleBank 3)) ! 0) = Fin 150
   \<and> status (processes (snd (executeProcess exampleBank 3)) ! 2) = ''Completed''
   \<and> fst (executeProcess exampleBank 4) = Some InvalidAmount
   \<and> balance (accounts (snd (executeProcess exampleBank 4)) ! 0) = Fin 100
   \<and> status (processes (snd (executeProcess exampleBank 4)) ! 3) = ''Failed''
   \<and> reachable nanBank
   \<and> fst (executeProcess nanBank 2) = None
   \<and> balance (accounts (snd (executeProcess nanBank 2)) ! 0) = NaN
   \<and> status (processes (snd (executeProcess nanBank 2)) ! 1) = ''Completed''"
proof -
  have d: "round64 150 = Fin 150" by (simp add: double_eval)
  show ?thesis
    using exampleBank_reachable nanBank_reachable
      deposit_execution [OF exampleBank_reachable, of 2 0]
      deposit_execution [OF exampleBank_reachable, of 3 0]
      deposit_execution [OF nanBank_reachable, of 1 0]
    by (simp add: exampleBank_eq nanBank_eq d)
qed

text \<open>
  C3, as stated, fails: the balance after a completed deposit need not be the exact sum.
  Both \<open>2 ^ 53\<close> and \<open>1\<close> are doubles; depositing \<open>1\<close> on a balance of \<open>2 ^ 53\<close> is
  \<^verbatim>\<open>Completed\<close> and leaves the balance at \<open>2 ^ 53\<close>, not at \<open>2 ^ 53 + 1\<close>.
\<close>

theorem deposit_rounding_counterexample:
  "round64 (2 ^ 53) = Fin (2 ^ 53) \<and> round64 1 = Fin 1
   \<and> map balance (accounts (run initBank
        [CreateAccount ''alice'' (Fin (2 ^ 53)), CreateProcess 1 ''Deposit'' (Fin 1),
         ExecuteProcess 1])) = [Fin (2 ^ 53)]
   \<and> map status (processes (run initBank
        [CreateAccount ''alice'' (Fin (2 ^ 53)), CreateProcess 1 ''Deposit'' (Fin 1),
         ExecuteProcess 1])) = [''Completed'']
   \<and> Fin (2 ^ 53) \<noteq> Fin (2 ^ 53 + 1)"
  by (simp add: bank_defs double_eval)



text \<open>
  C8. Executing a pending transaction whose account id is carried by no active account
  reports that the account was not found, sets the status of the transaction to
  \<^verbatim>\<open>Failed\<close> and leaves the accounts exactly as they were.
\<close>

theorem execute_unknown_account:
  assumes "reachable s"
    and "i < length (processes s)"
    and "status (processes s ! i) = ''Pending''"
    and "\<forall>a\<in>set (accounts s). \<not> (active a \<and> id_acc a = aid (processes s ! i))"
  shows "fst (executeProcess s (tid (processes s ! i))) = Some AccountNotFound
       \<and> status (processes (snd (executeProcess s (tid (processes s ! i)))) ! i) = ''Failed''
       \<and> accounts (snd (executeProcess s (tid (processes s ! i)))) = accounts s"
proof -
  have w: "wf s" using assms(1) by (rule reachable_wf)
  have p: "findProcessIn (processes s) (tid (processes s ! i)) = Some i"
    using w assms(2) by (rule wf_findProcess)
  have a: "findAccount s (aid (processes s ! i)) = None"
    using assms(4) by (simp add: findAccount_def findAccountIn_None_iff)
  show ?thesis
    using assms(2)
    by (simp add: executeProcess_no_account [OF p a] status_setStatus accounts_setStatus)
qed

theorem execute_unknown_account_witness:
  "reachable exampleBank
   \<and> status (processes exampleBank ! 4) = ''Pending''
   \<and> aid (processes exampleBank ! 4) = 7
   \<and> map id_acc (accounts exampleBank) = [1]
   \<and> fst (executeProcess exampleBank 5) = Some AccountNotFound
   \<and> status (processes (snd (executeProcess exampleBank 5)) ! 4) = ''Failed''
   \<and> accounts (snd (executeProcess exampleBank 5)) = accounts exampleBank"
  using exampleBank_reachable
    execute_unknown_account [OF exampleBank_reachable, of 4]
  by (simp add: exampleBank_eq)

text \<open>
  C10. The frame of \<^verbatim>\<open>executeProcess\<close>. Both counters and both counts keep their
  values. When no stored transaction has the id, the state is unchanged. Otherwise, with
  \<open>i\<close> the slot of the transaction: every other transaction is unchanged; in slot \<open>i\<close>
  the id, the account id, the type and the amount are unchanged (only the status may
  differ); every account other than the one the transaction resolves to is unchanged;
  and of every account the id, the customer id and the activity flag are unchanged (only
  the balance of the resolved account may differ).
\<close>

theorem executeProcess_frame:
  assumes "executeProcess s t = (r, s')"
  shows "nextAccountId s' = nextAccountId s \<and> nextTransactionId s' = nextTransactionId s
       \<and> accountCount s' = accountCount s \<and> processCount s' = processCount s
       \<and> (case findProcessIn (processes s) t of
             None \<Rightarrow> s' = s
           | Some i \<Rightarrow>
               (\<forall>k. k \<noteq> i \<longrightarrow> processes s' ! k = processes s ! k)
             \<and> tid (processes s' ! i) = tid (processes s ! i)
             \<and> aid (processes s' ! i) = aid (processes s ! i)
             \<and> type_proc (processes s' ! i) = type_proc (processes s ! i)
             \<and> amount (processes s' ! i) = amount (processes s ! i)
             \<and> (\<forall>k. findAccount s (aid (processes s ! i)) \<noteq> Some k \<longrightarrow>
                    accounts s' ! k = accounts s ! k)
             \<and> (\<forall>k. id_acc (accounts s' ! k) = id_acc (accounts s ! k)
                  \<and> customerId (accounts s' ! k) = customerId (accounts s ! k)
                  \<and> active (accounts s' ! k) = active (accounts s ! k)))"
proof (cases "findProcessIn (processes s) t")
  case None
  with assms show ?thesis by (auto simp: executeProcess_no_process)
next
  case (Some i)
  have s': "s' = snd (executeProcess s t)" using assms by simp
  from executeProcess_shape [OF Some] obtain st where
    "(\<exists>j b. findAccount s (aid (processes s ! i)) = Some j \<and> s' = setStatus (setBalance s j b) i st)
     \<or> s' = setStatus s i st"
    unfolding s' by blast
  then show ?thesis
  proof
    assume "\<exists>j b. findAccount s (aid (processes s ! i)) = Some j \<and> s' = setStatus (setBalance s j b) i st"
    then obtain j b where "findAccount s (aid (processes s ! i)) = Some j"
      and "s' = setStatus (setBalance s j b) i st" by blast
    with Some show ?thesis
      by (simp add: setStatus_def setBalance_def accountCount_def processCount_def nth_update_cases)
  next
    assume "s' = setStatus s i st"
    with Some show ?thesis
      by (simp add: setStatus_def accountCount_def processCount_def nth_update_cases)
  qed
qed

theorem executeProcess_frame_witness:
  "executeProcess exampleBank 3 =
     (None,
      exampleBank\<lparr>accounts := [\<lparr>id_acc = 1, customerId = ''alice'', balance = Fin 150, active = True\<rparr>],
        processes := (processes exampleBank)
          [2 := \<lparr>tid = 3, aid = 1, type_proc = ''Deposit'', amount = Fin 50, status = ''Completed''\<rparr>]\<rparr>)
   \<and> nextAccountId (snd (executeProcess exampleBank 3)) = nextAccountId exampleBank
   \<and> nextTransactionId (snd (executeProcess exampleBank 3)) = nextTransactionId exampleBank
   \<and> accountCount (snd (executeProcess exampleBank 3)) = accountCount exampleBank
   \<and> processCount (snd (executeProcess exampleBank 3)) = processCount exampleBank
   \<and> findProcessIn (processes exampleBank) 3 = Some 2
   \<and> processes (snd (executeProcess exampleBank 3)) ! 0 = processes exampleBank ! 0
   \<and> amount (processes (snd (executeProcess exampleBank 3)) ! 2) = Fin 50
   \<and> findProcessIn (processes exampleBank) 9 = None
   \<and> snd (executeProcess exampleBank 9) = exampleBank"
proof -
  have e3: "executeProcess exampleBank 3 =
     (None,
      exampleBank\<lparr>accounts := [\<lparr>id_acc = 1, customerId = ''alice'', balance = Fin 150, active = True\<rparr>],
        processes := (processes exampleBank)
          [2 := \<lparr>tid = 3, aid = 1, type_proc = ''Deposit'', amount = Fin 50, status = ''Completed''\<rparr>]\<rparr>)"
    by (simp add: exampleBank_eq executeProcess_def findAccount_def setStatus_def setBalance_def
        double_eval)
  have f3: "findProcessIn (processes exampleBank) 3 = Some 2"
    and f9: "findProcessIn (processes exampleBank) 9 = None"
    by (simp_all add: exampleBank_eq)
  have "snd (executeProcess exampleBank 9) = exampleBank"
    using executeProcess_frame [of exampleBank 9 "fst (executeProcess exampleBank 9)"
        "snd (executeProcess exampleBank 9)"]
    by (simp add: f9)
  moreover note executeProcess_frame [OF e3]
  ultimately show ?thesis
    using e3 f3 f9 by (simp add: exampleBank_eq)
qed

text \<open>
  C4, as the program has it. The claim itself does not hold: \<^verbatim>\<open>executeProcess\<close> never
  reads the status, so executing a finished transaction again runs it again. What holds for a stored transaction whose
  status is \<^verbatim>\<open>Completed\<close> or \<^verbatim>\<open>Failed\<close>, over every further list of operations: the
  status stays one of \<^verbatim>\<open>Completed\<close> and \<^verbatim>\<open>Failed\<close> (it is never \<^verbatim>\<open>Pending\<close> again);
  the whole transaction record is unchanged as long as \<^verbatim>\<open>executeProcess\<close> is not called
  with its own id; and calling \<^verbatim>\<open>executeProcess\<close> with its own id does exactly what it
  would do if the transaction were still \<^verbatim>\<open>Pending\<close>.
\<close>

theorem status_after_leaving_pending:
  assumes "reachable s"
    and "i < length (processes s)"
    and "status (processes s ! i) \<in> {''Completed'', ''Failed''}"
  shows "status (processes (run s ops) ! i) \<in> {''Completed'', ''Failed''}
       \<and> (ExecuteProcess (tid (processes s ! i)) \<notin> set ops \<longrightarrow>
            processes (run s ops) ! i = processes s ! i)
       \<and> executeProcess s (tid (processes s ! i)) =
            executeProcess (setStatus s i ''Pending'') (tid (processes s ! i))"
proof -
  have "findProcessIn (processes s) (tid (processes s ! i)) = Some i"
    using reachable_wf [OF assms(1)] assms(2) by (rule wf_findProcess)
  then show ?thesis
    using process_run [OF assms(2,3), of ops] by (simp add: executeProcess_ignores_status)
qed

theorem status_after_leaving_pending_witness:
  "reachable finishedBank
   \<and> status (processes finishedBank ! 0) = ''Completed''
   \<and> status (processes (run finishedBank
        [CreateAccount ''bob'' (Fin 5), CreateProcess 1 ''Withdraw'' (Fin 10), ExecuteProcess 2,
         CheckBalance 1]) ! 0) = ''Completed''
   \<and> processes (run finishedBank
        [CreateAccount ''bob'' (Fin 5), CreateProcess 1 ''Withdraw'' (Fin 10), ExecuteProcess 2,
         CheckBalance 1]) ! 0 = processes finishedBank ! 0
   \<and> status (processes (run finishedBank [ExecuteProcess 1]) ! 0) \<in> {''Completed'', ''Failed''}
   \<and> executeProcess finishedBank 1 = executeProcess (setStatus finishedBank 0 ''Pending'') 1"
proof -
  have h: "0 < length (processes finishedBank)"
    "status (processes finishedBank ! 0) \<in> {''Completed'', ''Failed''}"
    "tid (processes finishedBank ! 0) = 1"
    "status (processes finishedBank ! 0) = ''Completed''"
    by (simp_all add: finishedBank_eq)
  note t1 = status_after_leaving_pending [OF finishedBank_reachable h(1,2),
      of "[CreateAccount ''bob'' (Fin 5), CreateProcess 1 ''Withdraw'' (Fin 10), ExecuteProcess 2,
           CheckBalance 1]"]
  note t2 = status_after_leaving_pending [OF finishedBank_reachable h(1,2),
      of "[ExecuteProcess 1]"]
  show ?thesis
    using finishedBank_reachable t1 t2 by (simp add: h)
qed

text \<open>
  C4, as stated, fails. A completed deposit of 50 executed a second time raises the
  balance from 150 to 200; a withdrawal that failed for lack of funds and is executed
  again after a deposit changes its status from \<^verbatim>\<open>Failed\<close> to \<^verbatim>\<open>Completed\<close>.
\<close>

theorem execute_twice_counterexample:
  "map status (processes (run initBank
      [CreateAccount ''alice'' (Fin 100), CreateProcess 1 ''Deposit'' (Fin 50), ExecuteProcess 1]))
     = [''Completed'']
   \<and> map balance (accounts (run initBank
      [CreateAccount ''alice'' (Fin 100), CreateProcess 1 ''Deposit'' (Fin 50), ExecuteProcess 1]))
     = [Fin 150]
   \<and> map balance (accounts (run initBank
      [CreateAccount ''alice'' (Fin 100), CreateProcess 1 ''Deposit'' (Fin 50), ExecuteProcess 1,
       ExecuteProcess 1]))
     = [Fin 200]
   \<and> map status (processes (run initBank
      [CreateAccount ''alice'' (Fin 100), CreateProcess 1 ''Withdraw'' (Fin 150), ExecuteProcess 1]))
     = [''Failed'']
   \<and> map status (processes (run initBank
      [CreateAccount ''alice'' (Fin 100), CreateProcess 1 ''Withdraw'' (Fin 150), ExecuteProcess 1,
       CreateProcess 1 ''Deposit'' (Fin 100), ExecuteProcess 2, ExecuteProcess 1]))
     = [''Completed'', ''Completed'']"
  by (simp add: bank_defs double_eval)

text \<open>
  C5. Along every run from the initial object, the ids returned by the successful calls of
  \<^verbatim>\<open>createAccount\<close> are strictly increasing in the order of the calls, hence pairwise
  distinct; the same holds for the ids returned by \<^verbatim>\<open>createProcess\<close>.
\<close>

theorem ids_strictly_increasing:
  "sorted_wrt (<) (accountIdsReturned initBank ops) \<and> distinct (accountIdsReturned initBank ops)
   \<and> sorted_wrt (<) (transactionIdsReturned initBank ops)
   \<and> distinct (transactionIdsReturned initBank ops)"
  using accountIdsReturned_sorted [of initBank ops] transactionIdsReturned_sorted [of initBank ops]
  by (simp add: strict_sorted_iff)

theorem ids_strictly_increasing_witness:
  "accountIdsReturned initBank
     [CreateAccount ''alice'' (Fin 100), CreateAccount ''bob'' (Fin (- 5)), CreateProcess 1 ''Deposit'' (Fin 50),
      CreateAccount ''carol'' (Fin 0), ExecuteProcess 1, CreateProcess 9 ''Withdraw'' (Fin 1)] = [1, 2]
   \<and> transactionIdsReturned initBank
     [CreateAccount ''alice'' (Fin 100), CreateAccount ''bob'' (Fin (- 5)), CreateProcess 1 ''Deposit'' (Fin 50),
      CreateAccount ''carol'' (Fin 0), ExecuteProcess 1, CreateProcess 9 ''Withdraw'' (Fin 1)] = [1, 2]
   \<and> sorted_wrt (<) (accountIdsReturned initBank
     [CreateAccount ''alice'' (Fin 100), CreateAccount ''bob'' (Fin (- 5)), CreateProcess 1 ''Deposit'' (Fin 50),
      CreateAccount ''carol'' (Fin 0), ExecuteProcess 1, CreateProcess 9 ''Withdraw'' (Fin 1)])
   \<and> sorted_wrt (<) (transactionIdsReturned initBank
     [CreateAccount ''alice'' (Fin 100), CreateAccount ''bob'' (Fin (- 5)), CreateProcess 1 ''Deposit'' (Fin 50),
      CreateAccount ''carol'' (Fin 0), ExecuteProcess 1, CreateProcess 9 ''Withdraw'' (Fin 1)])"
  using ids_strictly_increasing [of "[CreateAccount ''alice'' (Fin 100), CreateAccount ''bob'' (Fin (- 5)),
      CreateProcess 1 ''Deposit'' (Fin 50), CreateAccount ''carol'' (Fin 0), ExecuteProcess 1,
      CreateProcess 9 ''Withdraw'' (Fin 1)]"]
  by (simp add: bank_defs double_eval)

text \<open>
  C6, as the program has it. A call of \<^verbatim>\<open>createAccount\<close> with a negative initial
  balance fails and returns the state as it was: no account is stored, the count and the
  id counter keep their values, and any following call behaves as it would have without
  the failed one. The error is the invalid amount when the table is below its capacity;
  when the table is full the capacity test, which comes first, answers instead.
\<close>

theorem createAccount_negative:
  assumes "dlt initialBalance (Fin 0)"
  shows "createAccount s cid initialBalance =
           (Inl (if accountCount s \<ge> MAX_ACCOUNTS then CapacityExceeded else InvalidAmount), s)
       \<and> accounts (snd (createAccount s cid initialBalance)) = accounts s
       \<and> accountCount (snd (createAccount s cid initialBalance)) = accountCount s
       \<and> nextAccountId (snd (createAccount s cid initialBalance)) = nextAccountId s
       \<and> createAccount (snd (createAccount s cid initialBalance)) cid' b' = createAccount s cid' b'"
  using assms by (simp add: createAccount_def)

theorem createAccount_negative_witness:
  "createAccount exampleBank ''bob'' (Fin (- 5)) = (Inl InvalidAmount, exampleBank)
   \<and> fst (createAccount (snd (createAccount exampleBank ''bob'' (Fin (- 5)))) ''carol'' (Fin 10)) = Inr 2
   \<and> fst (createAccount exampleBank ''carol'' (Fin 10)) = Inr 2
   \<and> createAccount fullBank ''bob'' (Fin (- 5)) = (Inl CapacityExceeded, fullBank)"
proof -
  have c: "accountCount exampleBank = 1" "nextAccountId exampleBank = 2"
    by (simp_all add: exampleBank_eq accountCount_def)
  have "fst (createAccount exampleBank ''carol'' (Fin 10)) = Inr 2"
    by (simp add: createAccount_def c MAX_ACCOUNTS_def Let_def)
  with createAccount_negative [of "Fin (- 5)" exampleBank "''bob''" "''carol''" "Fin 10"]
    createAccount_negative [of "Fin (- 5)" fullBank "''bob''"] c
  show ?thesis by (simp add: MAX_ACCOUNTS_def fullBank_count)
qed

text \<open>
  C6, as stated, fails on the full table: the call with initial balance \<open>-5\<close> is
  refused for the capacity, not for the amount.
\<close>

theorem createAccount_negative_full:
  "reachable fullBank \<and>
   fst (createAccount fullBank ''bob'' (Fin (- 5))) = Inl CapacityExceeded \<and>
   fst (createAccount fullBank ''bob'' (Fin (- 5))) \<noteq> Inl InvalidAmount"
  by (simp add: fullBank_reachable createAccount_def fullBank_count MAX_ACCOUNTS_def)

end
